theory Spec2Isabelle
  imports Main
begin

section \<open>Python values\<close>

text \<open>
  The constructor of \<open>ExtremeScaleExecutor\<close> (parsl/executors/extreme_scale/exex.py) is
  dynamically typed: every parameter is a Python value. The values the parameters take are
  \<open>None\<close>, booleans, integers, strings, tuples and opaque objects (a provider instance);
  an opaque object carries its class name and the result of its truth test.
\<close>

datatype pyval =
    PyNone
  | PyBool bool
  | PyInt int
  | PyStr string
  | PyTuple "pyval list"
  | PyObj string bool

text \<open>Python's truth test, as \<open>not launch_cmd\<close> applies it.\<close>

fun truthy :: "pyval \<Rightarrow> bool" where
  "truthy PyNone = False"
| "truthy (PyBool b) = b"
| "truthy (PyInt i) = (i \<noteq> 0)"
| "truthy (PyStr s) = (s \<noteq> [])"
| "truthy (PyTuple xs) = (xs \<noteq> [])"
| "truthy (PyObj c b) = b"

text \<open>
  Exceptions: \<open>OptionalModuleMissing\<close> with its two positional arguments, \<open>NameError\<close> for a
  global name that is not bound, and any other exception (by name) that the superclass
  initializer may raise.
\<close>

datatype exn =
    OptionalModuleMissing string string
  | NameError string
  | PyException string

section \<open>The module \<open>exex\<close>\<close>

text \<open>
  The module-level globals of exex.py: \<open>mpi4py\<close> (bound to the imported module, here its
  \<open>__version__\<close>, when the import succeeds), \<open>_mpi_enabled\<close>, the names that
  \<open>from parsl.executors.errors import *\<close> binds (line 13) and \<open>logger\<close>. The logger is
  modelled by the list of calls made on it, each a level and a message. The module
  \<open>parsl.executors.errors\<close> is not part of this source file: the names it exports are a
  parameter of the model.
\<close>

record module_state =
  mpi4py :: "string option"
  mpi_enabled :: bool
  errors_names :: "string list"
  logger :: "(string \<times> string) list"

text \<open>
  Loading the module (lines 6--19): \<open>try: import mpi4py / except ImportError:
  _mpi_enabled = False / else: _mpi_enabled = True\<close>, then
  the star import of line 13, then \<open>logger = logging.getLogger(__name__)\<close>. The arguments are
  the names that \<open>parsl.executors.errors\<close> exports and the outcome of \<open>import mpi4py\<close>.
\<close>

definition load_module :: "string list \<Rightarrow> string option \<Rightarrow> module_state" where
  "load_module names imported =
     (case imported of
        None \<Rightarrow> \<lparr>mpi4py = None, mpi_enabled = False, errors_names = names, logger = []\<rparr>
      | Some v \<Rightarrow> \<lparr>mpi4py = Some v, mpi_enabled = True, errors_names = names, logger = []\<rparr>)"

text \<open>\<open>logger.debug(msg)\<close> on the module-level logger.\<close>

definition logger_debug :: "string \<Rightarrow> module_state \<Rightarrow> module_state" where
  "logger_debug msg g = g\<lparr>logger := logger g @ [(''DEBUG'', msg)]\<rparr>"

text \<open>
  The class statement (line 22):
  \<open>class ExtremeScaleExecutor(HighThroughputExecutor, RepresentationMixin)\<close>.
  A class table maps a class name to its direct bases; the statement adds one entry to the
  table of the imported classes.
\<close>

type_synonym class_table = "string \<rightharpoonup> string list"

definition exex_classes :: "class_table \<Rightarrow> class_table" where
  "exex_classes imported_classes =
     imported_classes(''ExtremeScaleExecutor'' \<mapsto> [''HighThroughputExecutor'', ''RepresentationMixin''])"

text \<open>\<open>issubclass\<close>: a class is a subclass of itself and of every subclass' base.\<close>

inductive issubclass :: "class_table \<Rightarrow> string \<Rightarrow> string \<Rightarrow> bool" where
  issubclass_refl: "issubclass tab c c"
| issubclass_base: "tab c = Some bs \<Longrightarrow> b \<in> set bs \<Longrightarrow> issubclass tab b d \<Longrightarrow> issubclass tab c d"

section \<open>The constructor\<close>

text \<open>The twelve parameters of \<open>__init__\<close> (lines 87--99).\<close>

record args =
  label :: pyval
  provider :: pyval
  launch_cmd :: pyval
  public_ip :: pyval
  worker_ports :: pyval
  worker_port_range :: pyval
  internal_port_range :: pyval
  storage_access :: pyval
  working_dir :: pyval
  engine_debug :: pyval
  mock :: pyval
  managed :: pyval

text \<open>Their default values.\<close>

definition default_args :: args where
  "default_args =
     \<lparr>label = PyStr ''ExtremeScaleExecutor'',
      provider = PyObj ''LocalProvider'' True,
      launch_cmd = PyNone,
      public_ip = PyStr ''127.0.0.1'',
      worker_ports = PyNone,
      worker_port_range = PyTuple [PyInt 54000, PyInt 55000],
      internal_port_range = PyTuple [PyInt 55000, PyInt 56000],
      storage_access = PyNone,
      working_dir = PyNone,
      engine_debug = PyBool False,
      mock = PyBool False,
      managed = PyBool True\<rparr>"

text \<open>
  An instance: its class and its attribute dictionary. The superclass initializer
  \<open>HighThroughputExecutor.__init__\<close> is not part of this module; it is a parameter of the
  model, a function from the keyword arguments of the call to either the exception it raises
  or the attributes it has set on \<open>self\<close>.
\<close>

type_synonym kwargs = "(string \<times> pyval) list"
type_synonym attrs = "string \<rightharpoonup> pyval"
type_synonym super_init = "kwargs \<Rightarrow> exn + attrs"

record pyinstance =
  cls :: string
  attributes :: attrs

text \<open>The keyword arguments of the call \<open>super().__init__(...)\<close> (lines 101--112).\<close>

definition super_kwargs :: "args \<Rightarrow> kwargs" where
  "super_kwargs a =
     [(''label'', label a),
      (''provider'', provider a),
      (''launch_cmd'', launch_cmd a),
      (''public_ip'', public_ip a),
      (''worker_ports'', worker_ports a),
      (''worker_port_range'', worker_port_range a),
      (''internal_port_range'', internal_port_range a),
      (''storage_access'', storage_access a),
      (''working_dir'', working_dir a),
      (''engine_debug'', engine_debug a),
      (''mock'', mock a),
      (''managed'', managed a)]"

text \<open>The string assigned on line 123.\<close>

definition launch_cmd_template :: string where
  "launch_cmd_template =
     ''mpiexec -np {tasks_per_node} mpi_worker_pool.py {debug} --task_url={task_url} --result_url={result_url}''"

text \<open>
  \<open>ExtremeScaleExecutor.__init__\<close> (lines 87--123). It returns the exception raised or the
  attributes of \<open>self\<close>, and the module state after the call. The superclass initializer
  runs first (line 101) and its exception ends the call. Line 115 evaluates the global name
  \<open>OptionalModuleMissing\<close>, which only the star import of line 13 can bind: where it is not
  bound the statement raises \<open>NameError\<close>.
\<close>

definition ExtremeScaleExecutor_init ::
    "module_state \<Rightarrow> super_init \<Rightarrow> args \<Rightarrow> (exn + attrs) \<times> module_state" where
  "ExtremeScaleExecutor_init g sinit a =
     (case sinit (super_kwargs a) of
        Inl e \<Rightarrow> (Inl e, g)
      | Inr self \<Rightarrow>
          if \<not> mpi_enabled g then
            (if ''OptionalModuleMissing'' \<in> set (errors_names g)
             then (Inl (OptionalModuleMissing ''mpi4py''
                          ''Cannot initialize ExtremeScaleExecutor without mpi4py''), g)
             else (Inl (NameError ''OptionalModuleMissing''), g))
          else
            (case mpi4py g of
               None \<Rightarrow> (Inl (NameError ''mpi4py''), g)
             | Some v \<Rightarrow>
                 let g1 = logger_debug (''MPI version :'' @ v) g;
                     g2 = logger_debug ''Initializing ExtremeScaleExecutor'' g1
                 in if \<not> truthy (launch_cmd a)
                    then (Inr (self(''launch_cmd'' \<mapsto> PyStr launch_cmd_template)), g2)
                    else (Inr self, g2)))"

text \<open>
  The call \<open>ExtremeScaleExecutor(...)\<close>: a new object of the class, initialized by
  \<open>__init__\<close>.
\<close>

definition ExtremeScaleExecutor_new ::
    "module_state \<Rightarrow> super_init \<Rightarrow> args \<Rightarrow> (exn + pyinstance) \<times> module_state" where
  "ExtremeScaleExecutor_new g sinit a =
     (case ExtremeScaleExecutor_init g sinit a of
        (Inl e, g') \<Rightarrow> (Inl e, g')
      | (Inr d, g') \<Rightarrow> (Inr \<lparr>cls = ''ExtremeScaleExecutor'', attributes = d\<rparr>, g'))"

definition isinstance :: "class_table \<Rightarrow> pyinstance \<Rightarrow> string \<Rightarrow> bool" where
  "isinstance tab obj c = issubclass tab (cls obj) c"

text \<open>
  A superclass initializer to run the constructor on concrete inputs: it stores every
  keyword argument in the attribute of the same name.
\<close>

definition store_kwargs :: super_init where
  "store_kwargs kw = Inr (map_of kw)"

text \<open>
  Names that the star import of line 13 may bind, to run the constructor on concrete inputs:
  a list with \<open>OptionalModuleMissing\<close> and one without.
\<close>

definition star_names :: "string list" where
  "star_names = [''ExecutorError'', ''ScalingFailed'', ''OptionalModuleMissing'']"


text \<open>One that raises.\<close>

definition failing_super :: super_init where
  "failing_super kw = Inl (PyException ''ConfigurationError'')"

section \<open>The task distribution core\<close>

text \<open>
  Modelled from the spec: the task distribution core (Task Queue Client, Result Router and
  Interchange) is not in the source of this module, which only configures it. Sections 3 and
  4 of the specification are modelled. Task and worker identifiers are natural numbers.
\<close>

type_synonym task_id = nat
type_synonym worker_id = nat

text \<open>
  Modelled from the spec: the state of a Task Envelope, "one of {Queued, Dispatched, Completed,
  Failed}" (section 3).
\<close>

datatype task_state = Queued | Dispatched | Completed | Failed

text \<open>
  Modelled from the spec: the Task Envelope of section 3, kept under its \<open>task_id\<close>: the opaque
  payload, the state and the worker that holds the task. \<open>retries\<close> counts the requeues, which
  the per-task retry limit of section 4.4 needs.
\<close>

record envelope =
  payload :: string
  state :: task_state
  assigned_worker :: "worker_id option"
  retries :: nat

text \<open>
  Modelled from the spec: the Worker Registration of section 3. \<open>in_flight_tasks\<close>, a set of
  task ids, is held as a list.
\<close>

record worker =
  worker_id :: worker_id
  capacity :: nat
  last_heartbeat_time :: nat
  in_flight_tasks :: "task_id list"

text \<open>
  Modelled from the spec: the Batch of section 3: "batch_id, ordered sequence of task_ids,
  target worker".
\<close>

record batch =
  batch_id :: nat
  batch_tasks :: "task_id list"
  target_worker :: worker_id

text \<open>
  Modelled from the spec: the framing of a transport message, "task_id, type {task, result,
  exception}, and opaque payload bytes" (section 6).
\<close>

datatype msg_type = TaskMsg | ResultMsg | ExceptionMsg

text \<open>
  Modelled from the spec: a transport message with that framing.
\<close>

record message =
  msg_task_id :: task_id
  msg_type :: msg_type
  msg_payload :: string

text \<open>
  Modelled from the spec: the configuration surface of section 6 that the Interchange
  consumes: batch size, heartbeat timeout and the optional per-task retry limit.
\<close>

record config =
  batch_size :: nat
  heartbeat_timeout :: nat
  retry_limit :: "nat option"

text \<open>
  Modelled from the spec: the state of the Interchange: the envelopes it keeps, the FIFO
  pending queue, the worker registrations in the order of registration, the batches sent to
  workers and the messages forwarded to the client.
\<close>

record interchange =
  envelopes :: "task_id \<rightharpoonup> envelope"
  pending :: "task_id list"
  workers :: "worker list"
  to_workers :: "batch list"
  to_client :: "message list"
  next_batch_id :: nat

text \<open>
  Modelled from the spec: the Interchange as it starts: no task, no worker.
\<close>

definition initial :: interchange where
  "initial = \<lparr>envelopes = Map.empty, pending = [], workers = [], to_workers = [],
              to_client = [], next_batch_id = 0\<rparr>"

text \<open>
  Modelled from the spec: the spare capacity of a worker, its capacity less its tasks in
  flight.
\<close>

definition spare :: "worker \<Rightarrow> nat" where
  "spare w = capacity w - length (in_flight_tasks w)"

text \<open>
  Modelled from the spec: "On receiving a task: append to an internal pending queue (FIFO by
  arrival; no priority reordering)" (section 4.3). A task id is "never reused while the system
  is running": a message whose id has an envelope is not a new task and is dropped.
\<close>

definition receive_task :: "task_id \<Rightarrow> string \<Rightarrow> interchange \<Rightarrow> interchange" where
  "receive_task tid p s =
     (case envelopes s tid of
        Some e \<Rightarrow> s
      | None \<Rightarrow>
          s\<lparr>envelopes := (envelopes s)(tid \<mapsto>
               \<lparr>payload = p, state = Queued, assigned_worker = None, retries = 0\<rparr>),
            pending := pending s @ [tid]\<rparr>)"

text \<open>
  Modelled from the spec: the condition of the dispatch loop, "there exists at least one Worker
  Registration with in_flight_tasks < capacity and the pending queue is non-empty".
\<close>

definition can_dispatch :: "interchange \<Rightarrow> bool" where
  "can_dispatch s = (list_ex (\<lambda>w. length (in_flight_tasks w) < capacity w) (workers s)
                     \<and> pending s \<noteq> [])"

text \<open>
  Modelled from the spec: "select the worker with the most spare capacity (greedy least-loaded
  policy -- ties broken by earliest-registered worker, for determinism)".
\<close>

fun select_worker :: "worker list \<Rightarrow> worker option" where
  "select_worker [] = None"
| "select_worker (w # ws) =
     (case select_worker ws of
        None \<Rightarrow> Some w
      | Some v \<Rightarrow> if spare w < spare v then Some v else Some w)"

text \<open>
  Modelled from the spec: "mark each task Dispatched"; the assigned worker is "set on
  dispatch".
\<close>

definition mark_dispatched ::
    "worker_id \<Rightarrow> task_id list \<Rightarrow> (task_id \<rightharpoonup> envelope) \<Rightarrow> (task_id \<rightharpoonup> envelope)" where
  "mark_dispatched wid ts m =
     (\<lambda>tid. if tid \<in> set ts
            then map_option (\<lambda>e. e\<lparr>state := Dispatched, assigned_worker := Some wid\<rparr>) (m tid)
            else m tid)"

text \<open>
  Modelled from the spec: one turn of the dispatch loop: "pop up to batch_size tasks (bounded by
  both configured batch size and the worker's remaining capacity) and send them as one Batch;
  mark each task Dispatched and add to the worker's in_flight_tasks".
\<close>

definition dispatch_one :: "config \<Rightarrow> interchange \<Rightarrow> interchange" where
  "dispatch_one cfg s =
     (case select_worker (workers s) of
        None \<Rightarrow> s
      | Some w \<Rightarrow>
          let n = min (batch_size cfg) (spare w);
              ts = take n (pending s)
          in s\<lparr>pending := drop n (pending s),
               envelopes := mark_dispatched (worker_id w) ts (envelopes s),
               workers := map (\<lambda>v. if worker_id v = worker_id w
                                    then v\<lparr>in_flight_tasks := in_flight_tasks v @ ts\<rparr>
                                    else v) (workers s),
               to_workers := to_workers s @
                 [\<lparr>batch_id = next_batch_id s, batch_tasks = ts, target_worker = worker_id w\<rparr>],
               next_batch_id := Suc (next_batch_id s)\<rparr>)"

text \<open>
  Modelled from the spec: the dispatch loop of section 4.3, "while there exists at least one
  Worker Registration with in_flight_tasks < capacity and the pending queue is non-empty". With
  a batch size of zero a turn moves no task and the loop does not return: the result is an
  option.
\<close>

partial_function (option) dispatch_loop :: "config \<Rightarrow> interchange \<Rightarrow> interchange option" where
  "dispatch_loop cfg s =
     (if can_dispatch s then dispatch_loop cfg (dispatch_one cfg s) else Some s)"

declare dispatch_loop.simps [code]

text \<open>
  Modelled from the spec: "On receiving a result or exception for a task_id: remove the task
  from the owning worker's in_flight_tasks, mark the Task Envelope Completed/Failed, forward the
  result unchanged to the client transport" (section 4.4). Only a Dispatched task has an owning
  worker; a message for any other task is a duplicate and is dropped, and so is a message of
  type task.
\<close>

definition receive_result :: "task_id \<Rightarrow> msg_type \<Rightarrow> string \<Rightarrow> interchange \<Rightarrow> interchange" where
  "receive_result tid ty p s =
     (case envelopes s tid of
        None \<Rightarrow> s
      | Some e \<Rightarrow>
          if state e \<noteq> Dispatched \<or> ty = TaskMsg then s
          else
            s\<lparr>workers := map (\<lambda>w. if assigned_worker e = Some (worker_id w)
                                   then w\<lparr>in_flight_tasks := removeAll tid (in_flight_tasks w)\<rparr>
                                   else w) (workers s),
              envelopes := (envelopes s)(tid \<mapsto>
                 e\<lparr>state := (if ty = ResultMsg then Completed else Failed),
                   assigned_worker := None\<rparr>),
              to_client := to_client s @
                 [\<lparr>msg_task_id = tid, msg_type = ty, msg_payload = p\<rparr>]\<rparr>)"

text \<open>
  Modelled from the spec: the retry limit of section 4.4: "retries are not bounded in count
  unless a task-level retry limit is configured, in which case exceeding it resolves the task as
  permanently Failed with a WorkerLost error".
\<close>

definition exhausted :: "config \<Rightarrow> interchange \<Rightarrow> task_id \<Rightarrow> bool" where
  "exhausted cfg s tid =
     (case (retry_limit cfg, envelopes s tid) of
        (Some l, Some e) \<Rightarrow> l < Suc (retries e)
      | _ \<Rightarrow> False)"

text \<open>
  Modelled from the spec: a worker is declared dead: "every task in its in_flight_tasks is reset
  to Queued and pushed back to the front of the pending queue (to minimize added latency), the
  Worker Registration is removed" (section 4.4); a task beyond its retry limit is Failed and a
  WorkerLost exception goes to the client.
\<close>

definition requeue_worker :: "config \<Rightarrow> worker \<Rightarrow> interchange \<Rightarrow> interchange" where
  "requeue_worker cfg w s =
     (let lost = in_flight_tasks w;
          back = filter (\<lambda>tid. \<not> exhausted cfg s tid) lost;
          dead = filter (exhausted cfg s) lost
      in s\<lparr>envelopes := (\<lambda>tid.
              if tid \<in> set lost
              then map_option (\<lambda>e. e\<lparr>state := (if exhausted cfg s tid then Failed else Queued),
                                       assigned_worker := None,
                                       retries := Suc (retries e)\<rparr>) (envelopes s tid)
              else envelopes s tid),
           pending := back @ pending s,
           workers := filter (\<lambda>v. worker_id v \<noteq> worker_id w) (workers s),
           to_client := to_client s @
              map (\<lambda>tid. \<lparr>msg_task_id = tid, msg_type = ExceptionMsg,
                           msg_payload = ''WorkerLost''\<rparr>) dead\<rparr>)"

text \<open>
  Modelled from the spec: the watchdog "checks each Worker Registration's last_heartbeat_time.
  If it exceeds a timeout threshold, the worker is declared dead". Time is a natural number.
\<close>

definition timed_out :: "config \<Rightarrow> nat \<Rightarrow> worker \<Rightarrow> bool" where
  "timed_out cfg now w = (heartbeat_timeout cfg < now - last_heartbeat_time w)"

text \<open>
  Modelled from the spec: a tick of the watchdog declares dead every worker that has timed out,
  in the order of registration.
\<close>

definition watchdog :: "config \<Rightarrow> nat \<Rightarrow> interchange \<Rightarrow> interchange" where
  "watchdog cfg now s = fold (requeue_worker cfg) (filter (timed_out cfg now) (workers s)) s"

text \<open>
  Modelled from the spec: the "explicit requeue on transport failure" of section 4.5, also for
  a worker that "reports termination" (section 3): the registration is removed and its tasks
  are requeued.
\<close>

definition connection_closed :: "config \<Rightarrow> worker_id \<Rightarrow> interchange \<Rightarrow> interchange" where
  "connection_closed cfg wid s =
     fold (requeue_worker cfg) (filter (\<lambda>w. worker_id w = wid) (workers s)) s"

text \<open>
  Modelled from the spec: "New worker connections are accepted asynchronously at any time"
  (section 4.4). A registration starts with no task in flight; an id that is registered keeps
  its registration.
\<close>

definition register_worker :: "worker_id \<Rightarrow> nat \<Rightarrow> nat \<Rightarrow> interchange \<Rightarrow> interchange" where
  "register_worker wid cap now s =
     (if wid \<in> set (map worker_id (workers s)) then s
      else s\<lparr>workers := workers s @
              [\<lparr>worker_id = wid, capacity = cap, last_heartbeat_time = now,
                in_flight_tasks = []\<rparr>]\<rparr>)"

text \<open>
  Modelled from the spec: the heartbeat message of section 6 sets \<open>last_heartbeat_time\<close>.
\<close>

definition heartbeat :: "worker_id \<Rightarrow> nat \<Rightarrow> interchange \<Rightarrow> interchange" where
  "heartbeat wid now s =
     s\<lparr>workers := map (\<lambda>w. if worker_id w = wid then w\<lparr>last_heartbeat_time := now\<rparr> else w)
                      (workers s)\<rparr>"

text \<open>
  Modelled from the spec: cancellation (section 5): "if the task is still Queued, it is removed
  from the pending queue"; the envelope is destroyed, as its future is resolved. A Dispatched
  task "continues executing".
\<close>

definition cancel_task :: "task_id \<Rightarrow> interchange \<Rightarrow> interchange" where
  "cancel_task tid s =
     (case envelopes s tid of
        None \<Rightarrow> s
      | Some e \<Rightarrow>
          if state e = Queued
          then s\<lparr>pending := removeAll tid (pending s), envelopes := (envelopes s)(tid := None)\<rparr>
          else s)"

text \<open>
  Modelled from the spec: the atomic steps of the Interchange, serialized as section 5 demands
  ("a single serialization discipline"): a message from the client, one turn of the dispatch
  loop, a message from a worker, a tick of the watchdog, a closed worker connection, a
  registration, a heartbeat, a cancellation.
\<close>

datatype event =
    Task task_id string
  | Dispatch
  | Result task_id msg_type string
  | WatchdogTick nat
  | ConnectionClosed worker_id
  | Register worker_id nat nat
  | Heartbeat worker_id nat
  | Cancel task_id

text \<open>
  Modelled from the spec: what each atomic step does; a dispatch turn is taken only under the
  condition of the loop.
\<close>

fun step :: "config \<Rightarrow> event \<Rightarrow> interchange \<Rightarrow> interchange" where
  "step cfg (Task tid p) s = receive_task tid p s"
| "step cfg Dispatch s = (if can_dispatch s then dispatch_one cfg s else s)"
| "step cfg (Result tid ty p) s = receive_result tid ty p s"
| "step cfg (WatchdogTick now) s = watchdog cfg now s"
| "step cfg (ConnectionClosed wid) s = connection_closed cfg wid s"
| "step cfg (Register wid cap now) s = register_worker wid cap now s"
| "step cfg (Heartbeat wid now) s = heartbeat wid now s"
| "step cfg (Cancel tid) s = cancel_task tid s"

text \<open>
  Modelled from the spec: a run of the Interchange, from a list of steps.
\<close>

fun exec :: "config \<Rightarrow> event list \<Rightarrow> interchange \<Rightarrow> interchange" where
  "exec cfg [] s = s"
| "exec cfg (ev # evs) s = exec cfg evs (step cfg ev s)"

text \<open>
  Modelled from the spec: a handler of the Interchange: the step, then the dispatch loop, which
  is re-run on a new task, a new result, a new worker registration and a watchdog tick
  (section 5).
\<close>

definition handle :: "config \<Rightarrow> event \<Rightarrow> interchange \<Rightarrow> interchange option" where
  "handle cfg ev s = dispatch_loop cfg (step cfg ev s)"

text \<open>
  Modelled from the spec: the state of a task, as the Interchange records it.
\<close>

definition state_of :: "interchange \<Rightarrow> task_id \<Rightarrow> task_state option" where
  "state_of s tid = map_option state (envelopes s tid)"

text \<open>
  Modelled from the spec: the assigned worker of a task, as the Interchange records it.
\<close>

definition owner_of :: "interchange \<Rightarrow> task_id \<Rightarrow> worker_id option" where
  "owner_of s tid = (case envelopes s tid of None \<Rightarrow> None | Some e \<Rightarrow> assigned_worker e)"

text \<open>
  Modelled from the spec: the invariant of a Worker Registration (section 3),
  \<open>|in_flight_tasks| <= capacity\<close>.
\<close>

definition capacity_ok :: "interchange \<Rightarrow> bool" where
  "capacity_ok s = (\<forall>w\<in>set (workers s). length (in_flight_tasks w) \<le> capacity w)"

text \<open>
  Modelled from the spec: a worker id names one Worker Registration.
\<close>

definition ids_distinct :: "interchange \<Rightarrow> bool" where
  "ids_distinct s = distinct (map worker_id (workers s))"

text \<open>
  Modelled from the spec: the pending queue holds Queued tasks, each once.
\<close>

definition pending_queued :: "interchange \<Rightarrow> bool" where
  "pending_queued s =
     (distinct (pending s) \<and> (\<forall>tid\<in>set (pending s). state_of s tid = Some Queued))"

text \<open>
  Modelled from the spec: "Task Envelope --(n:1)--> Worker Registration while Dispatched": the
  tasks in flight on a worker are Dispatched to that worker, each once.
\<close>

definition in_flight_dispatched :: "interchange \<Rightarrow> bool" where
  "in_flight_dispatched s =
     (\<forall>w\<in>set (workers s). distinct (in_flight_tasks w) \<and>
        (\<forall>tid\<in>set (in_flight_tasks w).
           state_of s tid = Some Dispatched \<and> owner_of s tid = Some (worker_id w)))"

text \<open>
  Modelled from the spec: the invariants of the Interchange together.
\<close>

definition interchange_inv :: "interchange \<Rightarrow> bool" where
  "interchange_inv s =
     (capacity_ok s \<and> ids_distinct s \<and> pending_queued s \<and> in_flight_dispatched s)"

section \<open>The client: Task Queue Client and Result Router\<close>

text \<open>
  Modelled from the spec: the outcome of a Future: a successful result, an exception, the
  \<open>ConnectionLost\<close> error or \<open>Cancelled\<close> (sections 3 and 7).
\<close>

datatype resolution = Value string | Exception string | ConnectionLost | Cancelled

text \<open>
  Modelled from the spec: the Future of section 3: "task_id (back-reference), a result slot
  (empty until resolved), a resolution flag".
\<close>

record future =
  fut_task_id :: task_id
  slot :: "resolution option"
  resolved :: bool

text \<open>
  Modelled from the spec: the client side (sections 4.1 and 4.2): the mapping table from task
  ids to futures (a future is known by its position in \<open>futures\<close>), the bounded outbound
  channel and the log of dropped items.
\<close>

record tqc =
  next_task_id :: task_id
  table :: "task_id \<rightharpoonup> nat"
  futures :: "future list"
  outbound :: "message list"
  dropped :: "message list"

text \<open>
  Modelled from the spec: the \<open>QueueFull\<close> condition of section 7.
\<close>

datatype submit_error = QueueFull

text \<open>
  Modelled from the spec: the client as it starts: no task submitted.
\<close>

definition tqc_initial :: tqc where
  "tqc_initial = \<lparr>next_task_id = 0, table = Map.empty, futures = [], outbound = [],
                  dropped = []\<rparr>"

text \<open>
  Modelled from the spec: \<open>submit(payload) -> Future\<close> (section 4.1): "Generates a fresh
  task_id, constructs a Task Envelope in state Queued, enqueues it on the outbound channel
  [...] and returns a Future immediately", registering the future in the mapping table. Of
  "submission blocks or fails with a QueueFull condition" the model takes the failure, once the
  outbound channel holds \<open>queue_depth\<close> messages.
\<close>

definition submit :: "nat \<Rightarrow> string \<Rightarrow> tqc \<Rightarrow> submit_error + (nat \<times> tqc)" where
  "submit queue_depth p c =
     (if queue_depth \<le> length (outbound c) then Inl QueueFull
      else
        let tid = next_task_id c;
            h = length (futures c)
        in Inr (h, c\<lparr>next_task_id := Suc tid,
                     table := (table c)(tid \<mapsto> h),
                     futures := futures c @ [\<lparr>fut_task_id = tid, slot = None, resolved = False\<rparr>],
                     outbound := outbound c @
                       [\<lparr>msg_task_id = tid, msg_type = TaskMsg, msg_payload = p\<rparr>]\<rparr>))"

text \<open>
  Modelled from the spec: the transport takes the next message of the outbound channel.
\<close>

definition send_next :: "tqc \<Rightarrow> message option \<times> tqc" where
  "send_next c =
     (case outbound c of
        [] \<Rightarrow> (None, c)
      | m # ms \<Rightarrow> (Some m, c\<lparr>outbound := ms\<rparr>))"

text \<open>
  Modelled from the spec: resolving a Future fills its result slot and sets its flag.
\<close>

definition resolve :: "resolution \<Rightarrow> future \<Rightarrow> future" where
  "resolve r f = f\<lparr>slot := Some r, resolved := True\<rparr>"

text \<open>
  Modelled from the spec: the Result Router (section 4.2): "looks up task_id in the mapping
  table; if found, resolves the Future with either the successful value or the propagated
  exception, then removes the mapping entry. If not found [...] the item is logged and
  dropped". A task message is not a resolved item and is dropped.
\<close>

definition route_result :: "message \<Rightarrow> tqc \<Rightarrow> tqc" where
  "route_result m c =
     (case table c (msg_task_id m) of
        None \<Rightarrow> c\<lparr>dropped := dropped c @ [m]\<rparr>
      | Some h \<Rightarrow>
          (case msg_type m of
             TaskMsg \<Rightarrow> c\<lparr>dropped := dropped c @ [m]\<rparr>
           | ResultMsg \<Rightarrow>
               c\<lparr>futures := (futures c)[h := resolve (Value (msg_payload m)) (futures c ! h)],
                 table := (table c)(msg_task_id m := None)\<rparr>
           | ExceptionMsg \<Rightarrow>
               c\<lparr>futures := (futures c)[h := resolve (Exception (msg_payload m)) (futures c ! h)],
                 table := (table c)(msg_task_id m := None)\<rparr>))"

text \<open>
  Modelled from the spec: \<open>Future.cancel() -> bool\<close> (sections 5 and 6): a Future that is not
  resolved is resolved with \<open>Cancelled\<close>, and its eventual result is discarded: the mapping entry
  is removed.
\<close>

definition cancel :: "nat \<Rightarrow> tqc \<Rightarrow> bool \<times> tqc" where
  "cancel h c =
     (if h < length (futures c) \<and> \<not> resolved (futures c ! h)
      then (True, c\<lparr>futures := (futures c)[h := resolve Cancelled (futures c ! h)],
                    table := (table c)(fut_task_id (futures c ! h) := None)\<rparr>)
      else (False, c))"

text \<open>
  Modelled from the spec: "if the inbound channel itself is torn down [...] every
  still-unresolved Future is resolved with a ConnectionLost error" (section 4.2).
\<close>

definition connection_lost :: "tqc \<Rightarrow> tqc" where
  "connection_lost c =
     c\<lparr>futures := map (\<lambda>f. if resolved f then f else resolve ConnectionLost f) (futures c),
       table := Map.empty\<rparr>"

text \<open>
  Modelled from the spec: the atomic steps of the client, under the "exclusive-access
  discipline" of section 4.1.
\<close>

datatype client_op =
    Submit string
  | SendNext
  | Route message
  | CancelFuture nat
  | TransportDown

text \<open>
  Modelled from the spec: what each atomic step of the client does; a submission that fails
  leaves the client unchanged.
\<close>

fun client_step :: "nat \<Rightarrow> client_op \<Rightarrow> tqc \<Rightarrow> tqc" where
  "client_step d (Submit p) c = (case submit d p c of Inl e \<Rightarrow> c | Inr (h, c') \<Rightarrow> c')"
| "client_step d SendNext c = snd (send_next c)"
| "client_step d (Route m) c = route_result m c"
| "client_step d (CancelFuture h) c = snd (cancel h c)"
| "client_step d TransportDown c = connection_lost c"

text \<open>
  Modelled from the spec: a run of the client, from a list of steps.
\<close>

fun client_run :: "nat \<Rightarrow> client_op list \<Rightarrow> tqc \<Rightarrow> tqc" where
  "client_run d [] c = c"
| "client_run d (x # xs) c = client_run d xs (client_step d x c)"

text \<open>
  Modelled from the spec: the invariant of the client: a mapping entry leads to the unresolved
  Future of its task ("Task Envelope --(1:1)--> Future"), and task ids are fresh and distinct.
\<close>

definition tqc_inv :: "tqc \<Rightarrow> bool" where
  "tqc_inv c =
     ((\<forall>tid h. table c tid = Some h \<longrightarrow>
          h < length (futures c) \<and> fut_task_id (futures c ! h) = tid
          \<and> \<not> resolved (futures c ! h))
      \<and> (\<forall>f\<in>set (futures c). fut_task_id f < next_task_id c)
      \<and> distinct (map fut_task_id (futures c)))"

section \<open>Concrete runs\<close>

text \<open>A configuration and runs of the Interchange and of the client, to evaluate the model.\<close>

definition cfg1 :: config where
  "cfg1 = \<lparr>batch_size = 2, heartbeat_timeout = 10, retry_limit = Some 1\<rparr>"

definition burst :: "event list" where
  "burst = [Register 7 3 0, Register 8 1 0, Task 0 ''a'', Task 1 ''b'', Task 2 ''c'',
            Task 3 ''d'', Task 4 ''e'', Dispatch, Dispatch, Dispatch]"


definition session :: "client_op list" where
  "session = [Submit ''f(1)'', SendNext,
              Route \<lparr>msg_task_id = 0, msg_type = ResultMsg, msg_payload = ''42''\<rparr>]"



section \<open>Properties of the constructor\<close>

text \<open>The constructor, with the two logger calls written out.\<close>

lemma init_cases:
  "ExtremeScaleExecutor_init g sinit a =
     (case sinit (super_kwargs a) of
        Inl e \<Rightarrow> (Inl e, g)
      | Inr self \<Rightarrow>
          if \<not> mpi_enabled g then
            (if ''OptionalModuleMissing'' \<in> set (errors_names g)
             then (Inl (OptionalModuleMissing ''mpi4py''
                          ''Cannot initialize ExtremeScaleExecutor without mpi4py''), g)
             else (Inl (NameError ''OptionalModuleMissing''), g))
          else
            (case mpi4py g of
               None \<Rightarrow> (Inl (NameError ''mpi4py''), g)
             | Some v \<Rightarrow>
                 (if \<not> truthy (launch_cmd a)
                    then Inr (self(''launch_cmd'' \<mapsto> PyStr launch_cmd_template))
                    else Inr self,
                  g\<lparr>logger := logger g @ [(''DEBUG'', ''MPI version :'' @ v),
                       (''DEBUG'', ''Initializing ExtremeScaleExecutor'')]\<rparr>)))"
  by (simp add: ExtremeScaleExecutor_init_def logger_debug_def Let_def
           split: sum.splits option.splits)

lemma load_module_fields:
  "mpi4py (load_module ns i) = i" "mpi_enabled (load_module ns i) = (i \<noteq> None)"
  "errors_names (load_module ns i) = ns" "logger (load_module ns i) = []"
  by (simp_all add: load_module_def split: option.splits)

lemma exex_issubclass:
  shows "issubclass (exex_classes tab) ''ExtremeScaleExecutor'' ''HighThroughputExecutor''"
    and "issubclass (exex_classes tab) ''ExtremeScaleExecutor'' ''RepresentationMixin''"
proof -
  have t: "exex_classes tab ''ExtremeScaleExecutor'' =
             Some [''HighThroughputExecutor'', ''RepresentationMixin'']"
    by (simp add: exex_classes_def)
  show "issubclass (exex_classes tab) ''ExtremeScaleExecutor'' ''HighThroughputExecutor''"
    by (rule issubclass_base [where b = "''HighThroughputExecutor''"], rule t, simp,
        rule issubclass_refl)
  show "issubclass (exex_classes tab) ''ExtremeScaleExecutor'' ''RepresentationMixin''"
    by (rule issubclass_base [where b = "''RepresentationMixin''"], rule t, simp,
        rule issubclass_refl)
qed

text \<open>
  Claim C1 says that the front-end is built by composition and that a constructed object is
  not an instance of the full executor. The class statement on line 22 says otherwise: the
  object constructed from the default arguments has class \<open>ExtremeScaleExecutor\<close>, which
  is a subclass of \<open>HighThroughputExecutor\<close>.
\<close>

theorem composition_counterexample:
  "map_sum id cls (fst (ExtremeScaleExecutor_new (load_module star_names (Some ''3.1.4'')) store_kwargs
      default_args)) = Inr ''ExtremeScaleExecutor''
   \<and> issubclass (exex_classes Map.empty) ''ExtremeScaleExecutor'' ''HighThroughputExecutor''"
  by (simp add: ExtremeScaleExecutor_new_def init_cases store_kwargs_def load_module_fields
        exex_issubclass)

text \<open>
  Claim C1 as amended: the front-end is built by inheritance. Every object the constructor
  returns is an instance of \<open>ExtremeScaleExecutor\<close>, of \<open>HighThroughputExecutor\<close> and of
  \<open>RepresentationMixin\<close>, whatever the imported classes are, and its attributes are those set
  by the superclass initializer on the forwarded keyword arguments, \<open>launch_cmd\<close> apart.
\<close>

theorem built_by_inheritance:
  assumes "fst (ExtremeScaleExecutor_new g sinit a) = Inr obj"
  shows "isinstance (exex_classes tab) obj ''ExtremeScaleExecutor''
       \<and> isinstance (exex_classes tab) obj ''HighThroughputExecutor''
       \<and> isinstance (exex_classes tab) obj ''RepresentationMixin''
       \<and> (\<exists>self. sinit (super_kwargs a) = Inr self
             \<and> (\<forall>k. k \<noteq> ''launch_cmd'' \<longrightarrow> attributes obj k = self k))"
  using assms
  by (auto simp: ExtremeScaleExecutor_new_def init_cases isinstance_def exex_issubclass
        issubclass_refl split: sum.splits option.splits if_splits prod.splits)

text \<open>
  Witness of C1 as amended: the object constructed from the default arguments.
\<close>

theorem built_by_inheritance_witness:
  "fst (ExtremeScaleExecutor_new (load_module star_names (Some ''3.1.4'')) store_kwargs default_args) =
     Inr \<lparr>cls = ''ExtremeScaleExecutor'',
          attributes = (map_of (super_kwargs default_args))
                         (''launch_cmd'' \<mapsto> PyStr launch_cmd_template)\<rparr>
   \<and> isinstance (exex_classes Map.empty)
        \<lparr>cls = ''ExtremeScaleExecutor'',
          attributes = (map_of (super_kwargs default_args))
                         (''launch_cmd'' \<mapsto> PyStr launch_cmd_template)\<rparr>
        ''HighThroughputExecutor''"
proof -
  have r: "fst (ExtremeScaleExecutor_new (load_module star_names (Some ''3.1.4'')) store_kwargs default_args) =
     Inr \<lparr>cls = ''ExtremeScaleExecutor'',
          attributes = (map_of (super_kwargs default_args))
                         (''launch_cmd'' \<mapsto> PyStr launch_cmd_template)\<rparr>"
    by (simp add: ExtremeScaleExecutor_new_def init_cases store_kwargs_def load_module_fields
          default_args_def)
  from built_by_inheritance [OF r, of Map.empty] r show ?thesis by simp
qed

text \<open>
  Claim C2: every parameter of the constructor is forwarded unchanged, under its own name,
  to the superclass initializer, and the class adds no logic of its own to the result: an
  exception of the superclass initializer is the constructor's, a returned object has the
  attributes the superclass initializer set (\<open>launch_cmd\<close> apart), and the constructor
  depends on the superclass initializer only through that one call.
\<close>

theorem parameters_forwarded:
  fixes a :: args
  defines "kw \<equiv> [(''label'', label a), (''provider'', provider a),
                  (''launch_cmd'', launch_cmd a), (''public_ip'', public_ip a),
                  (''worker_ports'', worker_ports a),
                  (''worker_port_range'', worker_port_range a),
                  (''internal_port_range'', internal_port_range a),
                  (''storage_access'', storage_access a), (''working_dir'', working_dir a),
                  (''engine_debug'', engine_debug a), (''mock'', mock a),
                  (''managed'', managed a)]"
  shows "(\<forall>e. sinit kw = Inl e \<longrightarrow> ExtremeScaleExecutor_init g sinit a = (Inl e, g))
       \<and> (\<forall>obj. fst (ExtremeScaleExecutor_init g sinit a) = Inr obj \<longrightarrow>
             (\<exists>self. sinit kw = Inr self \<and> (\<forall>k. k \<noteq> ''launch_cmd'' \<longrightarrow> obj k = self k)))
       \<and> (sinit kw = sinit' kw \<longrightarrow>
             ExtremeScaleExecutor_init g sinit a = ExtremeScaleExecutor_init g sinit' a)"
  unfolding kw_def
  by (auto simp: init_cases super_kwargs_def split: sum.splits option.splits if_splits)

text \<open>
  Witness of C2: the default arguments, with a superclass initializer that raises and one
  that stores its keyword arguments.
\<close>

theorem parameters_forwarded_witness:
  "ExtremeScaleExecutor_init (load_module star_names (Some ''3.1.4'')) failing_super default_args
       = (Inl (PyException ''ConfigurationError''), load_module star_names (Some ''3.1.4''))
   \<and> fst (ExtremeScaleExecutor_init (load_module star_names (Some ''3.1.4'')) store_kwargs default_args)
       = Inr ((map_of (super_kwargs default_args))(''launch_cmd'' \<mapsto> PyStr launch_cmd_template))
   \<and> store_kwargs (super_kwargs default_args) = Inr (map_of (super_kwargs default_args))
   \<and> ((map_of (super_kwargs default_args))(''launch_cmd'' \<mapsto> PyStr launch_cmd_template))
        ''public_ip'' = map_of (super_kwargs default_args) ''public_ip''
   \<and> ExtremeScaleExecutor_init (load_module star_names (Some ''3.1.4'')) store_kwargs default_args
       = ExtremeScaleExecutor_init (load_module star_names (Some ''3.1.4''))
           (\<lambda>kw. if length kw = 12 then store_kwargs kw else failing_super kw) default_args"
proof -
  let ?g = "load_module star_names (Some ''3.1.4'')"
  have r: "fst (ExtremeScaleExecutor_init ?g store_kwargs default_args)
       = Inr ((map_of (super_kwargs default_args))(''launch_cmd'' \<mapsto> PyStr launch_cmd_template))"
    by (simp add: init_cases store_kwargs_def load_module_fields default_args_def)
  from parameters_forwarded [where g = ?g and sinit = failing_super and a = default_args]
       parameters_forwarded [where g = ?g and sinit = store_kwargs and a = default_args
         and sinit' = "\<lambda>kw. if length kw = 12 then store_kwargs kw else failing_super kw"]
       r
  show ?thesis by (simp add: failing_super_def store_kwargs_def super_kwargs_def)
qed

text \<open>
  Claim C3 says that no module-level state is accessed implicitly and that a logger is
  passed to each component. The constructor has no logger parameter and still writes to the
  module-level \<open>logger\<close>, and its outcome changes with the module-level \<open>_mpi_enabled\<close>
  while its arguments stay the same.
\<close>

theorem module_logger_counterexample:
  "logger (snd (ExtremeScaleExecutor_init (load_module star_names (Some ''3.1.4'')) store_kwargs default_args))
     \<noteq> logger (load_module star_names (Some ''3.1.4''))
   \<and> fst (ExtremeScaleExecutor_init (load_module star_names None) store_kwargs default_args)
     \<noteq> fst (ExtremeScaleExecutor_init (load_module star_names (Some ''3.1.4'')) store_kwargs default_args)"
  by (simp add: init_cases store_kwargs_def load_module_fields)

text \<open>
  Claim C3 as amended: the logger is a module-level global, created empty when the module is
  loaded; the constructor writes its two debug messages to it exactly when the superclass
  initializer has returned and \<open>mpi4py\<close> was imported, and leaves it unchanged otherwise.
\<close>

theorem module_logger_written:
  "logger (snd (ExtremeScaleExecutor_init g sinit a)) =
     (case (sinit (super_kwargs a), mpi_enabled g, mpi4py g) of
        (Inr self, True, Some v) \<Rightarrow>
           logger g @ [(''DEBUG'', ''MPI version :'' @ v),
                       (''DEBUG'', ''Initializing ExtremeScaleExecutor'')]
      | _ \<Rightarrow> logger g)
   \<and> logger (load_module names imported) = []"
  by (simp add: init_cases load_module_fields split: sum.splits option.splits bool.splits)



text \<open>
  Claim C10: when the constructor returns and \<open>launch_cmd\<close> was falsy, the attribute
  \<open>launch_cmd\<close> is the fixed \<open>mpiexec\<close> template; when \<open>launch_cmd\<close> was truthy, the
  object is as the superclass initializer left it, and the superclass initializer received
  the argument unchanged.
\<close>

theorem launch_cmd_default:
  assumes "ExtremeScaleExecutor_init g sinit a = (Inr obj, g')"
  shows "(\<not> truthy (launch_cmd a) \<longrightarrow>
            obj ''launch_cmd'' = Some (PyStr
              ''mpiexec -np {tasks_per_node} mpi_worker_pool.py {debug} --task_url={task_url} --result_url={result_url}''))
       \<and> (truthy (launch_cmd a) \<longrightarrow>
            sinit (super_kwargs a) = Inr obj
            \<and> map_of (super_kwargs a) ''launch_cmd'' = Some (launch_cmd a))"
  using assms
  by (auto simp: init_cases launch_cmd_template_def super_kwargs_def
           split: sum.splits option.splits if_splits)

text \<open>
  Witness of C10: the default \<open>launch_cmd\<close> (\<open>None\<close>) and a command of the caller.
\<close>

theorem launch_cmd_default_witness:
  "ExtremeScaleExecutor_init (load_module star_names (Some ''3.1.4'')) store_kwargs default_args =
     (Inr ((map_of (super_kwargs default_args))(''launch_cmd'' \<mapsto> PyStr launch_cmd_template)),
      logger_debug ''Initializing ExtremeScaleExecutor''
        (logger_debug ''MPI version :3.1.4'' (load_module star_names (Some ''3.1.4''))))
   \<and> \<not> truthy (launch_cmd default_args)
   \<and> ((map_of (super_kwargs default_args))(''launch_cmd'' \<mapsto> PyStr launch_cmd_template))
         ''launch_cmd'' = Some (PyStr
           ''mpiexec -np {tasks_per_node} mpi_worker_pool.py {debug} --task_url={task_url} --result_url={result_url}'')
   \<and> ExtremeScaleExecutor_init (load_module star_names (Some ''3.1.4'')) store_kwargs
         (default_args\<lparr>launch_cmd := PyStr ''srun worker.py''\<rparr>) =
     (Inr (map_of (super_kwargs (default_args\<lparr>launch_cmd := PyStr ''srun worker.py''\<rparr>))),
      logger_debug ''Initializing ExtremeScaleExecutor''
        (logger_debug ''MPI version :3.1.4'' (load_module star_names (Some ''3.1.4''))))
   \<and> truthy (launch_cmd (default_args\<lparr>launch_cmd := PyStr ''srun worker.py''\<rparr>))
   \<and> map_of (super_kwargs (default_args\<lparr>launch_cmd := PyStr ''srun worker.py''\<rparr>))
         ''launch_cmd'' = Some (PyStr ''srun worker.py'')"
proof -
  let ?g = "load_module star_names (Some ''3.1.4'')"
  let ?g' = "logger_debug ''Initializing ExtremeScaleExecutor''
        (logger_debug ''MPI version :3.1.4'' ?g)"
  let ?b = "default_args\<lparr>launch_cmd := PyStr ''srun worker.py''\<rparr>"
  have f: "\<not> truthy (launch_cmd default_args)"
    by (simp add: default_args_def)
  have t: "truthy (launch_cmd ?b)"
    by simp
  have r1: "ExtremeScaleExecutor_init ?g store_kwargs default_args =
     (Inr ((map_of (super_kwargs default_args))(''launch_cmd'' \<mapsto> PyStr launch_cmd_template)), ?g')"
    using f by (simp add: init_cases store_kwargs_def load_module_fields logger_debug_def)
  have r2: "ExtremeScaleExecutor_init ?g store_kwargs ?b = (Inr (map_of (super_kwargs ?b)), ?g')"
    using t by (simp add: init_cases store_kwargs_def load_module_fields logger_debug_def)
  from launch_cmd_default [OF r1] launch_cmd_default [OF r2] f t r1 r2
  show ?thesis by simp
qed

section \<open>The invariants of the Interchange\<close>

lemmas inv_defs = interchange_inv_def capacity_ok_def ids_distinct_def pending_queued_def
  in_flight_dispatched_def

lemma select_worker_in: "select_worker ws = Some w \<Longrightarrow> w \<in> set ws"
  by (induction ws arbitrary: w) (auto split: option.splits if_splits)

lemma select_worker_max: "select_worker ws = Some w \<Longrightarrow> v \<in> set ws \<Longrightarrow> spare v \<le> spare w"
proof (induction ws arbitrary: w v)
  case Nil
  then show ?case by simp
next
  case (Cons a ws)
  show ?case
  proof (cases "select_worker ws")
    case None
    then have "ws = []" by (cases ws) (auto split: option.splits if_splits)
    with Cons.prems None show ?thesis by simp
  next
    case (Some u)
    have le: "x \<in> set ws \<Longrightarrow> spare x \<le> spare u" for x
      using Cons.IH [OF Some] .
    from Cons.prems(1) Some have w: "w = (if spare a < spare u then u else a)"
      by (simp split: if_splits)
    from Cons.prems(2) have "v = a \<or> v \<in> set ws" by simp
    then show ?thesis
    proof
      assume "v = a"
      with w show ?thesis by simp
    next
      assume "v \<in> set ws"
      from le [OF this] w show ?thesis by (simp split: if_splits)
    qed
  qed
qed

lemma select_worker_some: "ws \<noteq> [] \<Longrightarrow> \<exists>w. select_worker ws = Some w"
  by (cases ws) (auto split: option.splits)

lemma same_id:
  "distinct (map worker_id ws) \<Longrightarrow> v \<in> set ws \<Longrightarrow> w \<in> set ws \<Longrightarrow>
   worker_id v = worker_id w \<Longrightarrow> v = w"
  by (auto simp: distinct_map inj_on_def)

text \<open>What each operation does to the state and owner of a task, the pending queue and the workers.\<close>

lemma obs_receive_task:
  "state_of (receive_task tid p s) t =
     (if t = tid \<and> state_of s tid = None then Some Queued else state_of s t)"
  "owner_of (receive_task tid p s) t =
     (if t = tid \<and> state_of s tid = None then None else owner_of s t)"
  "pending (receive_task tid p s) =
     (if state_of s tid = None then pending s @ [tid] else pending s)"
  "workers (receive_task tid p s) = workers s"
  by (auto simp: receive_task_def state_of_def owner_of_def split: option.splits)

lemma obs_register:
  "state_of (register_worker wid cap now s) t = state_of s t"
  "owner_of (register_worker wid cap now s) t = owner_of s t"
  "pending (register_worker wid cap now s) = pending s"
  "workers (register_worker wid cap now s) =
     (if wid \<in> worker_id ` set (workers s) then workers s
      else workers s @ [\<lparr>worker_id = wid, capacity = cap, last_heartbeat_time = now,
                          in_flight_tasks = []\<rparr>])"
  by (auto simp: register_worker_def state_of_def owner_of_def)

lemma obs_heartbeat:
  "state_of (heartbeat wid now s) t = state_of s t"
  "owner_of (heartbeat wid now s) t = owner_of s t"
  "pending (heartbeat wid now s) = pending s"
  "map worker_id (workers (heartbeat wid now s)) = map worker_id (workers s)"
  "map capacity (workers (heartbeat wid now s)) = map capacity (workers s)"
  "map in_flight_tasks (workers (heartbeat wid now s)) = map in_flight_tasks (workers s)"
  by (auto simp: heartbeat_def state_of_def owner_of_def)

lemma obs_cancel:
  "state_of (cancel_task tid s) t =
     (if t = tid \<and> state_of s tid = Some Queued then None else state_of s t)"
  "owner_of (cancel_task tid s) t =
     (if t = tid \<and> state_of s tid = Some Queued then None else owner_of s t)"
  "pending (cancel_task tid s) =
     (if state_of s tid = Some Queued then removeAll tid (pending s) else pending s)"
  "workers (cancel_task tid s) = workers s"
  by (auto simp: cancel_task_def state_of_def owner_of_def split: option.splits)

lemma obs_receive_result:
  "state_of (receive_result tid ty p s) t =
     (if t = tid \<and> state_of s tid = Some Dispatched \<and> ty \<noteq> TaskMsg
      then Some (if ty = ResultMsg then Completed else Failed) else state_of s t)"
  "owner_of (receive_result tid ty p s) t =
     (if t = tid \<and> state_of s tid = Some Dispatched \<and> ty \<noteq> TaskMsg
      then None else owner_of s t)"
  "pending (receive_result tid ty p s) = pending s"
  "workers (receive_result tid ty p s) =
     (if state_of s tid = Some Dispatched \<and> ty \<noteq> TaskMsg
      then map (\<lambda>w. if owner_of s tid = Some (worker_id w)
                     then w\<lparr>in_flight_tasks := removeAll tid (in_flight_tasks w)\<rparr> else w)
               (workers s)
      else workers s)"
  by (auto simp: receive_result_def state_of_def owner_of_def split: option.splits)

lemma obs_dispatch_one:
  fixes cfg :: config
  assumes "select_worker (workers s) = Some w"
  defines "ts \<equiv> take (min (batch_size cfg) (spare w)) (pending s)"
  shows "state_of (dispatch_one cfg s) t =
           (if t \<in> set ts \<and> state_of s t \<noteq> None then Some Dispatched else state_of s t)"
    and "owner_of (dispatch_one cfg s) t =
           (if t \<in> set ts \<and> state_of s t \<noteq> None then Some (worker_id w) else owner_of s t)"
    and "pending (dispatch_one cfg s) = drop (min (batch_size cfg) (spare w)) (pending s)"
    and "workers (dispatch_one cfg s) =
           map (\<lambda>v. if worker_id v = worker_id w
                     then v\<lparr>in_flight_tasks := in_flight_tasks v @ ts\<rparr> else v) (workers s)"
  using assms(1) unfolding ts_def
  by (auto simp: dispatch_one_def mark_dispatched_def state_of_def owner_of_def Let_def
           split: option.splits)

lemma obs_requeue:
  "state_of (requeue_worker cfg w s) t =
     (if t \<in> set (in_flight_tasks w) \<and> state_of s t \<noteq> None
      then Some (if exhausted cfg s t then Failed else Queued) else state_of s t)"
  "owner_of (requeue_worker cfg w s) t =
     (if t \<in> set (in_flight_tasks w) then None else owner_of s t)"
  "pending (requeue_worker cfg w s) =
     filter (\<lambda>tid. \<not> exhausted cfg s tid) (in_flight_tasks w) @ pending s"
  "workers (requeue_worker cfg w s) = filter (\<lambda>v. worker_id v \<noteq> worker_id w) (workers s)"
  by (auto simp: requeue_worker_def state_of_def owner_of_def Let_def split: option.splits)

lemma inv_initial: "interchange_inv initial"
  by (simp add: inv_defs initial_def)

lemma inv_register: "interchange_inv s \<Longrightarrow> interchange_inv (register_worker wid cap now s)"
  unfolding inv_defs by (auto simp: obs_register)

lemma heartbeat_workers:
  "v \<in> set (workers (heartbeat wid now s)) \<Longrightarrow>
   \<exists>u\<in>set (workers s). worker_id v = worker_id u \<and> capacity v = capacity u
      \<and> in_flight_tasks v = in_flight_tasks u"
  by (auto simp: heartbeat_def)

lemma inv_heartbeat: "interchange_inv s \<Longrightarrow> interchange_inv (heartbeat wid now s)"
  unfolding inv_defs
  by (auto simp: obs_heartbeat dest!: heartbeat_workers)

lemma result_workers:
  "v \<in> set (workers (receive_result tid ty p s)) \<Longrightarrow>
   \<exists>u\<in>set (workers s). worker_id v = worker_id u \<and> capacity v = capacity u
      \<and> (in_flight_tasks v = in_flight_tasks u \<and>
           \<not> (state_of s tid = Some Dispatched \<and> ty \<noteq> TaskMsg
               \<and> owner_of s tid = Some (worker_id u))
          \<or> in_flight_tasks v = removeAll tid (in_flight_tasks u))"
  by (auto simp: obs_receive_result split: if_splits)

lemma result_ids:
  "map worker_id (workers (receive_result tid ty p s)) = map worker_id (workers s)"
  by (auto simp: obs_receive_result)

lemma length_removeAll_le: "length (removeAll x xs) \<le> length xs"
  by (rule length_removeAll_less_eq)

lemma inv_receive_result: "interchange_inv s \<Longrightarrow> interchange_inv (receive_result tid ty p s)"
  unfolding inv_defs
proof (intro conjI ballI)
  assume a: "(\<forall>w\<in>set (workers s). length (in_flight_tasks w) \<le> capacity w) \<and>
    distinct (map worker_id (workers s)) \<and>
    (distinct (pending s) \<and> (\<forall>tid\<in>set (pending s). state_of s tid = Some Queued)) \<and>
    (\<forall>w\<in>set (workers s).
        distinct (in_flight_tasks w) \<and>
        (\<forall>tid\<in>set (in_flight_tasks w).
            state_of s tid = Some Dispatched \<and> owner_of s tid = Some (worker_id w)))"
  let ?s' = "receive_result tid ty p s"
  show "distinct (map worker_id (workers ?s'))" using a by (simp add: result_ids)
  show "distinct (pending ?s')" using a by (simp add: obs_receive_result)
  show "state_of ?s' t = Some Queued" if "t \<in> set (pending ?s')" for t
    using a that by (auto simp: obs_receive_result)
  fix v assume v: "v \<in> set (workers ?s')"
  from result_workers [OF v] obtain u where u: "u \<in> set (workers s)"
    "worker_id v = worker_id u" "capacity v = capacity u"
    "in_flight_tasks v = in_flight_tasks u \<and>
           \<not> (state_of s tid = Some Dispatched \<and> ty \<noteq> TaskMsg
               \<and> owner_of s tid = Some (worker_id u))
          \<or> in_flight_tasks v = removeAll tid (in_flight_tasks u)"
    by blast
  show "length (in_flight_tasks v) \<le> capacity v"
  proof -
    from a u(1) have "length (in_flight_tasks u) \<le> capacity u" by blast
    moreover have "length (in_flight_tasks v) \<le> length (in_flight_tasks u)"
      using u(4) length_removeAll_le [of tid "in_flight_tasks u"] by auto
    ultimately show ?thesis using u(3) by simp
  qed
  show "distinct (in_flight_tasks v)"
    using a u by (auto simp: distinct_removeAll)
  fix t assume t: "t \<in> set (in_flight_tasks v)"
  have both: "state_of ?s' t = Some Dispatched \<and> owner_of ?s' t = Some (worker_id v)"
    using a u t by (auto simp: obs_receive_result)
  from both show "state_of ?s' t = Some Dispatched" ..
  from both show "owner_of ?s' t = Some (worker_id v)" ..
qed

lemma invI:
  assumes "\<And>w. w \<in> set (workers s) \<Longrightarrow> length (in_flight_tasks w) \<le> capacity w"
      and "distinct (map worker_id (workers s))"
      and "distinct (pending s)"
      and "\<And>t. t \<in> set (pending s) \<Longrightarrow> state_of s t = Some Queued"
      and "\<And>w. w \<in> set (workers s) \<Longrightarrow> distinct (in_flight_tasks w)"
      and "\<And>w t. w \<in> set (workers s) \<Longrightarrow> t \<in> set (in_flight_tasks w) \<Longrightarrow>
             state_of s t = Some Dispatched \<and> owner_of s t = Some (worker_id w)"
  shows "interchange_inv s"
  unfolding inv_defs using assms by blast

lemma inv_capacity:
  "interchange_inv s \<Longrightarrow> w \<in> set (workers s) \<Longrightarrow> length (in_flight_tasks w) \<le> capacity w"
  unfolding inv_defs by blast

lemma inv_ids: "interchange_inv s \<Longrightarrow> distinct (map worker_id (workers s))"
  unfolding inv_defs by blast

lemma inv_pending_distinct: "interchange_inv s \<Longrightarrow> distinct (pending s)"
  unfolding inv_defs by blast

lemma inv_pending: "interchange_inv s \<Longrightarrow> t \<in> set (pending s) \<Longrightarrow> state_of s t = Some Queued"
  unfolding inv_defs by blast

lemma inv_in_flight_distinct:
  "interchange_inv s \<Longrightarrow> w \<in> set (workers s) \<Longrightarrow> distinct (in_flight_tasks w)"
  unfolding inv_defs by blast

lemma inv_in_flight:
  "interchange_inv s \<Longrightarrow> w \<in> set (workers s) \<Longrightarrow> t \<in> set (in_flight_tasks w) \<Longrightarrow>
   state_of s t = Some Dispatched \<and> owner_of s t = Some (worker_id w)"
  unfolding inv_defs by blast

lemma inv_receive_task:
  assumes i: "interchange_inv s"
  shows "interchange_inv (receive_task tid p s)"
proof (rule invI)
  let ?s' = "receive_task tid p s"
  show "distinct (map worker_id (workers ?s'))"
    using inv_ids [OF i] by (simp add: obs_receive_task)
  show "distinct (pending ?s')"
    using inv_pending_distinct [OF i] inv_pending [OF i, of tid]
    by (auto simp: obs_receive_task)
  show "state_of ?s' t = Some Queued" if "t \<in> set (pending ?s')" for t
    using that inv_pending [OF i, of t] by (auto simp: obs_receive_task split: if_splits)
  show "length (in_flight_tasks w) \<le> capacity w" if "w \<in> set (workers ?s')" for w
    using that inv_capacity [OF i, of w] by (simp add: obs_receive_task)
  show "distinct (in_flight_tasks w)" if "w \<in> set (workers ?s')" for w
    using that inv_in_flight_distinct [OF i, of w] by (simp add: obs_receive_task)
  show "state_of ?s' t = Some Dispatched \<and> owner_of ?s' t = Some (worker_id w)"
    if "w \<in> set (workers ?s')" "t \<in> set (in_flight_tasks w)" for w t
    using that inv_in_flight [OF i, of w t] by (auto simp: obs_receive_task)
qed

lemma inv_cancel:
  assumes i: "interchange_inv s"
  shows "interchange_inv (cancel_task tid s)"
proof (rule invI)
  let ?s' = "cancel_task tid s"
  show "distinct (map worker_id (workers ?s'))"
    using inv_ids [OF i] by (simp add: obs_cancel)
  show "distinct (pending ?s')"
    using inv_pending_distinct [OF i] by (auto simp: obs_cancel distinct_removeAll)
  show "state_of ?s' t = Some Queued" if "t \<in> set (pending ?s')" for t
    using that inv_pending [OF i, of t] by (auto simp: obs_cancel split: if_splits)
  show "length (in_flight_tasks w) \<le> capacity w" if "w \<in> set (workers ?s')" for w
    using that inv_capacity [OF i, of w] by (simp add: obs_cancel)
  show "distinct (in_flight_tasks w)" if "w \<in> set (workers ?s')" for w
    using that inv_in_flight_distinct [OF i, of w] by (simp add: obs_cancel)
  show "state_of ?s' t = Some Dispatched \<and> owner_of ?s' t = Some (worker_id w)"
    if "w \<in> set (workers ?s')" "t \<in> set (in_flight_tasks w)" for w t
    using that inv_in_flight [OF i, of w t] by (auto simp: obs_cancel)
qed

lemma inv_requeue:
  assumes i: "interchange_inv s" and w: "w \<in> set (workers s)"
  shows "interchange_inv (requeue_worker cfg w s)"
proof (rule invI)
  let ?s' = "requeue_worker cfg w s"
  have other: "t \<notin> set (in_flight_tasks w)"
    if "v \<in> set (workers s)" "worker_id v \<noteq> worker_id w" "t \<in> set (in_flight_tasks v)" for v t
    using inv_in_flight [OF i that(1,3)] inv_in_flight [OF i w, of t] that(2) by auto
  show "distinct (map worker_id (workers ?s'))"
    using inv_ids [OF i] by (simp add: obs_requeue distinct_map_filter)
  show "distinct (pending ?s')"
    using inv_pending_distinct [OF i] inv_in_flight_distinct [OF i w]
      inv_pending [OF i] inv_in_flight [OF i w]
    by (fastforce simp: obs_requeue)
  show "state_of ?s' t = Some Queued" if "t \<in> set (pending ?s')" for t
    using that inv_pending [OF i, of t] inv_in_flight [OF i w, of t]
    by (auto simp: obs_requeue split: if_splits)
  show "length (in_flight_tasks v) \<le> capacity v" if "v \<in> set (workers ?s')" for v
    using that inv_capacity [OF i, of v] by (simp add: obs_requeue)
  show "distinct (in_flight_tasks v)" if "v \<in> set (workers ?s')" for v
    using that inv_in_flight_distinct [OF i, of v] by (simp add: obs_requeue)
  show "state_of ?s' t = Some Dispatched \<and> owner_of ?s' t = Some (worker_id v)"
    if "v \<in> set (workers ?s')" "t \<in> set (in_flight_tasks v)" for v t
  proof -
    from that(1) have v: "v \<in> set (workers s)" "worker_id v \<noteq> worker_id w"
      by (simp_all add: obs_requeue)
    from other [OF v that(2)] inv_in_flight [OF i v(1) that(2)]
    show ?thesis by (simp add: obs_requeue)
  qed
qed

lemma dispatch_workers:
  assumes "select_worker (workers s) = Some w"
      and "v' \<in> set (workers (dispatch_one cfg s))"
      and "distinct (map worker_id (workers s))"
  shows "(v' \<in> set (workers s) \<and> worker_id v' \<noteq> worker_id w)
       \<or> v' = w\<lparr>in_flight_tasks := in_flight_tasks w @
                   take (min (batch_size cfg) (spare w)) (pending s)\<rparr>"
proof -
  from assms(2) obtain v where v: "v \<in> set (workers s)"
    "v' = (if worker_id v = worker_id w
           then v\<lparr>in_flight_tasks := in_flight_tasks v @
                    take (min (batch_size cfg) (spare w)) (pending s)\<rparr> else v)"
    by (auto simp: obs_dispatch_one [OF assms(1)])
  show ?thesis
  proof (cases "worker_id v = worker_id w")
    case True
    then have "v = w" using same_id [OF assms(3) v(1) select_worker_in [OF assms(1)]] by simp
    with v(2) show ?thesis by simp
  next
    case False
    with v show ?thesis by simp
  qed
qed

lemma inv_dispatch_one:
  assumes i: "interchange_inv s"
  shows "interchange_inv (dispatch_one cfg s)"
proof (cases "select_worker (workers s)")
  case None
  then show ?thesis using i by (simp add: dispatch_one_def)
next
  case (Some w)
  let ?s' = "dispatch_one cfg s"
  let ?n = "min (batch_size cfg) (spare w)"
  let ?ts = "take ?n (pending s)"
  note obs = obs_dispatch_one [OF Some, of cfg]
  have w: "w \<in> set (workers s)" by (rule select_worker_in [OF Some])
  have ts_pending: "t \<in> set (pending s)" if "t \<in> set ?ts" for t
    using that by (rule in_set_takeD)
  have ts_queued: "state_of s t = Some Queued" if "t \<in> set ?ts" for t
    using inv_pending [OF i ts_pending [OF that]] .
  have ts_distinct: "distinct ?ts"
    using inv_pending_distinct [OF i] by simp
  have not_ts: "t \<notin> set ?ts" if "v \<in> set (workers s)" "t \<in> set (in_flight_tasks v)" for v t
    using inv_in_flight [OF i that] ts_queued [of t] by auto
  have len: "length (in_flight_tasks w @ ?ts) \<le> capacity w"
    using inv_capacity [OF i w] by (simp add: spare_def)
  show ?thesis
  proof (rule invI)
    show "distinct (map worker_id (workers ?s'))"
    proof -
      have "map worker_id (workers ?s') = map worker_id (workers s)"
        by (auto simp: obs)
      then show ?thesis using inv_ids [OF i] by simp
    qed
    show "distinct (pending ?s')"
      using inv_pending_distinct [OF i] by (simp add: obs)
    show "state_of ?s' t = Some Queued" if "t \<in> set (pending ?s')" for t
    proof -
      from that have d: "t \<in> set (drop ?n (pending s))" by (simp add: obs)
      then have p: "t \<in> set (pending s)" by (rule in_set_dropD)
      have "set ?ts \<inter> set (drop ?n (pending s)) = {}"
        using inv_pending_distinct [OF i] by (rule set_take_disj_set_drop_if_distinct) simp
      with d have "t \<notin> set ?ts" by blast
      then show ?thesis using inv_pending [OF i p] by (simp add: obs)
    qed
    show "length (in_flight_tasks v) \<le> capacity v" if "v \<in> set (workers ?s')" for v
      using dispatch_workers [OF Some that inv_ids [OF i]] len inv_capacity [OF i, of v]
      by auto
    show "distinct (in_flight_tasks v)" if "v \<in> set (workers ?s')" for v
      using dispatch_workers [OF Some that inv_ids [OF i]] inv_in_flight_distinct [OF i, of v]
        inv_in_flight_distinct [OF i w] ts_distinct not_ts [OF w]
      by auto
    show "state_of ?s' t = Some Dispatched \<and> owner_of ?s' t = Some (worker_id v)"
      if "v \<in> set (workers ?s')" "t \<in> set (in_flight_tasks v)" for v t
      using dispatch_workers [OF Some that(1) inv_ids [OF i]]
    proof
      assume "v \<in> set (workers s) \<and> worker_id v \<noteq> worker_id w"
      then have v: "v \<in> set (workers s)" by simp
      show ?thesis
        using inv_in_flight [OF i v that(2)] not_ts [OF v that(2)]
        by (simp add: obs)
    next
      assume v: "v = w\<lparr>in_flight_tasks := in_flight_tasks w @ ?ts\<rparr>"
      with that(2) have "t \<in> set (in_flight_tasks w) \<or> t \<in> set ?ts" by auto
      then show ?thesis
      proof
        assume t: "t \<in> set (in_flight_tasks w)"
        show ?thesis using inv_in_flight [OF i w t] not_ts [OF w t] v by (simp add: obs)
      next
        assume t: "t \<in> set ?ts"
        show ?thesis using ts_queued [OF t] t v by (simp add: obs)
      qed
    qed
  qed
qed

lemma inv_requeue_fold:
  assumes "interchange_inv s" and "set ws \<subseteq> set (workers s)"
      and "distinct (map worker_id ws)"
  shows "interchange_inv (fold (requeue_worker cfg) ws s)"
  using assms
proof (induction ws arbitrary: s)
  case Nil
  then show ?case by simp
next
  case (Cons w ws)
  from Cons.prems have w: "w \<in> set (workers s)" by simp
  have i': "interchange_inv (requeue_worker cfg w s)"
    by (rule inv_requeue [OF Cons.prems(1) w])
  have sub: "set ws \<subseteq> set (workers (requeue_worker cfg w s))"
  proof
    fix x assume x: "x \<in> set ws"
    with Cons.prems(3) have "worker_id x \<noteq> worker_id w" by (auto simp: image_iff)
    moreover from x Cons.prems(2) have "x \<in> set (workers s)" by auto
    ultimately show "x \<in> set (workers (requeue_worker cfg w s))" by (simp add: obs_requeue)
  qed
  have "interchange_inv (fold (requeue_worker cfg) ws (requeue_worker cfg w s))"
    using Cons.IH [OF i' sub] Cons.prems(3) by simp
  then show ?case by simp
qed

lemma inv_watchdog: "interchange_inv s \<Longrightarrow> interchange_inv (watchdog cfg now s)"
  unfolding watchdog_def
  by (rule inv_requeue_fold) (auto simp: distinct_map_filter dest: inv_ids)

lemma inv_connection_closed:
  "interchange_inv s \<Longrightarrow> interchange_inv (connection_closed cfg wid s)"
  unfolding connection_closed_def
  by (rule inv_requeue_fold) (auto simp: distinct_map_filter dest: inv_ids)

lemma inv_step: "interchange_inv s \<Longrightarrow> interchange_inv (step cfg ev s)"
  by (cases ev)
     (simp_all add: inv_receive_task inv_dispatch_one inv_receive_result inv_watchdog
        inv_connection_closed inv_register inv_heartbeat inv_cancel)

lemma inv_exec: "interchange_inv s \<Longrightarrow> interchange_inv (exec cfg evs s)"
  by (induction evs arbitrary: s) (simp_all add: inv_step)

section \<open>Transitions and the dispatch loop\<close>



lemma dispatch_one_progress:
  assumes "can_dispatch s" and "0 < batch_size cfg"
  shows "length (pending (dispatch_one cfg s)) < length (pending s)"
proof -
  from assms(1) obtain v where v: "v \<in> set (workers s)"
    "length (in_flight_tasks v) < capacity v" and p: "pending s \<noteq> []"
    by (auto simp: can_dispatch_def list_ex_iff)
  from v(1) have "workers s \<noteq> []" by auto
  from select_worker_some [OF this] obtain w where w: "select_worker (workers s) = Some w" ..
  from select_worker_max [OF w v(1)] v(2) have "0 < spare w" by (simp add: spare_def)
  with assms(2) have "0 < min (batch_size cfg) (spare w)" by simp
  with p show ?thesis by (cases "pending s") (simp_all add: obs_dispatch_one [OF w])
qed


lemma dispatch_loop_returns:
  assumes "0 < batch_size cfg"
  shows "\<exists>n. dispatch_loop cfg s = Some (exec cfg (replicate n Dispatch) s)
           \<and> \<not> can_dispatch (exec cfg (replicate n Dispatch) s)"
proof (induction "length (pending s)" arbitrary: s rule: less_induct)
  case less
  show ?case
  proof (cases "can_dispatch s")
    case False
    then have "dispatch_loop cfg s = Some (exec cfg (replicate 0 Dispatch) s)
               \<and> \<not> can_dispatch (exec cfg (replicate 0 Dispatch) s)"
      by (simp add: dispatch_loop.simps)
    then show ?thesis ..
  next
    case True
    from less [OF dispatch_one_progress [OF True assms]]
    obtain n where n: "dispatch_loop cfg (dispatch_one cfg s) =
         Some (exec cfg (replicate n Dispatch) (dispatch_one cfg s))"
       "\<not> can_dispatch (exec cfg (replicate n Dispatch) (dispatch_one cfg s))"
      by blast
    have "dispatch_loop cfg s = dispatch_loop cfg (dispatch_one cfg s)"
      using True by (subst dispatch_loop.simps) simp
    with n True have "dispatch_loop cfg s = Some (exec cfg (replicate (Suc n) Dispatch) s)
               \<and> \<not> can_dispatch (exec cfg (replicate (Suc n) Dispatch) s)"
      by simp
    then show ?thesis ..
  qed
qed

lemma dispatch_loop_steps:
  assumes "dispatch_loop cfg0 s0 = Some r"
  shows "\<exists>n. r = exec cfg0 (replicate n Dispatch) s0"
proof (rule dispatch_loop.raw_induct
         [where P = "\<lambda>cfg s s'. \<exists>n. s' = exec cfg (replicate n Dispatch) s", OF _ assms])
  fix loop cfg s s'
  assume IH: "\<And>a b y. loop a b = Some y \<Longrightarrow> \<exists>n. y = exec a (replicate n Dispatch) b"
     and eq: "(if can_dispatch s then loop cfg (dispatch_one cfg s) else Some s) = Some s'"
  show "\<exists>n. s' = exec cfg (replicate n Dispatch) s"
  proof (cases "can_dispatch s")
    case False
    with eq have "s' = exec cfg (replicate 0 Dispatch) s" by simp
    then show ?thesis ..
  next
    case True
    with eq have "loop cfg (dispatch_one cfg s) = Some s'" by simp
    from IH [OF this] obtain n where "s' = exec cfg (replicate n Dispatch) (dispatch_one cfg s)" ..
    with True have "s' = exec cfg (replicate (Suc n) Dispatch) s" by simp
    then show ?thesis ..
  qed
qed

lemma handle_steps:
  "handle cfg ev s = Some s' \<Longrightarrow> \<exists>n. s' = exec cfg (ev # replicate n Dispatch) s"
  unfolding handle_def by (drule dispatch_loop_steps) simp

lemma handle_returns:
  "0 < batch_size cfg \<Longrightarrow> \<exists>n. handle cfg ev s = Some (exec cfg (ev # replicate n Dispatch) s)"
  unfolding handle_def using dispatch_loop_returns [of cfg "step cfg ev s"] by auto

lemma inv_handle: "interchange_inv s \<Longrightarrow> handle cfg ev s = Some s' \<Longrightarrow> interchange_inv s'"
  by (drule handle_steps) (auto intro: inv_exec inv_step)


section \<open>The invariant of the client\<close>

lemma tqc_inv_table:
  "tqc_inv c \<Longrightarrow> table c tid = Some h \<Longrightarrow>
   h < length (futures c) \<and> fut_task_id (futures c ! h) = tid \<and> \<not> resolved (futures c ! h)"
  unfolding tqc_inv_def by blast

lemma fut_task_id_resolve [simp]: "fut_task_id (resolve r f) = fut_task_id f"
  by (simp add: resolve_def)

lemma resolved_resolve [simp]: "resolved (resolve r f)"
  by (simp add: resolve_def)

lemma map_id_update:
  "map fut_task_id (fs[h := resolve r (fs ! h)]) = map fut_task_id fs"
  by (cases "h < length fs") (simp_all add: map_update list_update_same_conv list_update_beyond)

lemma tqc_inv_initial: "tqc_inv tqc_initial"
  by (simp add: tqc_inv_def tqc_initial_def)

lemma tqc_inv_resolve_at:
  assumes i: "tqc_inv c" and h: "h < length (futures c)"
  shows "tqc_inv (c\<lparr>futures := (futures c)[h := resolve r (futures c ! h)],
                   table := (table c)(fut_task_id (futures c ! h) := None)\<rparr>)"
proof -
  have d: "distinct (map fut_task_id (futures c))" using i by (simp add: tqc_inv_def)
  have other: "h' \<noteq> h"
    if "table c tid = Some h'" "tid \<noteq> fut_task_id (futures c ! h)" for tid h'
    using tqc_inv_table [OF i that(1)] that(2) by auto
  have ids: "fut_task_id ` set ((futures c)[h := resolve r (futures c ! h)])
               = fut_task_id ` set (futures c)"
    using map_id_update [where h = h and r = r and fs = "futures c"] by (metis list.set_map)
  show ?thesis
    unfolding tqc_inv_def
  proof (intro conjI allI impI ballI)
    fix tid h'
    assume t: "(table (c\<lparr>futures := (futures c)[h := resolve r (futures c ! h)],
                   table := (table c)(fut_task_id (futures c ! h) := None)\<rparr>)) tid = Some h'"
    then have ne: "tid \<noteq> fut_task_id (futures c ! h)" and t': "table c tid = Some h'"
      by (auto split: if_splits)
    from other [OF t' ne] tqc_inv_table [OF i t']
    have "h' < length (futures c) \<and> fut_task_id (futures c ! h') = tid
          \<and> \<not> resolved (futures c ! h') \<and> h' \<noteq> h" by simp
    then show "h' < length (futures (c\<lparr>futures := (futures c)[h := resolve r (futures c ! h)],
                   table := (table c)(fut_task_id (futures c ! h) := None)\<rparr>))"
      and "fut_task_id (futures (c\<lparr>futures := (futures c)[h := resolve r (futures c ! h)],
                   table := (table c)(fut_task_id (futures c ! h) := None)\<rparr>) ! h') = tid"
      and "\<not> resolved (futures (c\<lparr>futures := (futures c)[h := resolve r (futures c ! h)],
                   table := (table c)(fut_task_id (futures c ! h) := None)\<rparr>) ! h')"
      by simp_all
  next
    fix f
    assume "f \<in> set (futures (c\<lparr>futures := (futures c)[h := resolve r (futures c ! h)],
                   table := (table c)(fut_task_id (futures c ! h) := None)\<rparr>))"
    then have "fut_task_id f \<in> fut_task_id ` set (futures c)" using ids by auto
    then show "fut_task_id f < next_task_id (c\<lparr>futures := (futures c)[h := resolve r (futures c ! h)],
                   table := (table c)(fut_task_id (futures c ! h) := None)\<rparr>)"
      using i by (auto simp: tqc_inv_def)
  next
    show "distinct (map fut_task_id (futures (c\<lparr>futures := (futures c)[h := resolve r (futures c ! h)],
                   table := (table c)(fut_task_id (futures c ! h) := None)\<rparr>)))"
      using d by (simp add: map_id_update)
  qed
qed

lemma tqc_inv_dropped: "tqc_inv c \<Longrightarrow> tqc_inv (c\<lparr>dropped := ms\<rparr>)"
  by (simp add: tqc_inv_def)

lemma tqc_inv_outbound: "tqc_inv c \<Longrightarrow> tqc_inv (c\<lparr>outbound := ms\<rparr>)"
  by (simp add: tqc_inv_def)

lemma tqc_inv_route:
  assumes i: "tqc_inv c"
  shows "tqc_inv (route_result m c)"
proof (cases "table c (msg_task_id m)")
  case None
  then show ?thesis using i by (simp add: route_result_def tqc_inv_dropped)
next
  case (Some h)
  from tqc_inv_table [OF i Some]
  have h: "h < length (futures c)" and t: "fut_task_id (futures c ! h) = msg_task_id m"
    by simp_all
  show ?thesis
    using tqc_inv_resolve_at [OF i h, of "Value (msg_payload m)"]
      tqc_inv_resolve_at [OF i h, of "Exception (msg_payload m)"] tqc_inv_dropped [OF i] Some t
    by (cases "msg_type m") (simp_all add: route_result_def)
qed

lemma tqc_inv_cancel: "tqc_inv c \<Longrightarrow> tqc_inv (snd (cancel h c))"
  using tqc_inv_resolve_at [of c h Cancelled] by (simp add: cancel_def)

lemma tqc_inv_connection_lost:
  assumes i: "tqc_inv c"
  shows "tqc_inv (connection_lost c)"
proof -
  let ?g = "\<lambda>f. if resolved f then f else resolve ConnectionLost f"
  have m: "map fut_task_id (map ?g (futures c)) = map fut_task_id (futures c)"
    by (rule nth_equalityI) simp_all
  have "fut_task_id f < next_task_id c" if "f \<in> set (map ?g (futures c))" for f
  proof -
    from that obtain f0 where "f0 \<in> set (futures c)" "f = ?g f0" by auto
    then show ?thesis using i by (auto simp: tqc_inv_def)
  qed
  moreover have "distinct (map fut_task_id (map ?g (futures c)))"
    using i unfolding m by (simp add: tqc_inv_def)
  ultimately show ?thesis
    unfolding tqc_inv_def connection_lost_def by simp
qed

lemma tqc_inv_submit:
  assumes i: "tqc_inv c" and s: "submit d p c = Inr (h, c')"
  shows "tqc_inv c'"
proof -
  let ?tid = "next_task_id c"
  let ?f = "\<lparr>fut_task_id = ?tid, slot = None, resolved = False\<rparr>"
  from s have c': "c' = c\<lparr>next_task_id := Suc ?tid, table := (table c)(?tid \<mapsto> length (futures c)),
                     futures := futures c @ [?f],
                     outbound := outbound c @
                       [\<lparr>msg_task_id = ?tid, msg_type = TaskMsg, msg_payload = p\<rparr>]\<rparr>"
    by (auto simp: submit_def Let_def split: if_splits)
  have fresh: "?tid \<notin> fut_task_id ` set (futures c)"
    using i by (auto simp: tqc_inv_def)
  have nofresh: "table c ?tid = None"
  proof (cases "table c ?tid")
    case (Some k)
    from tqc_inv_table [OF i Some] fresh show ?thesis
      by (metis image_eqI nth_mem)
  qed simp
  show ?thesis
    unfolding tqc_inv_def c'
  proof (intro conjI allI impI ballI)
    fix tid k
    assume "table (c\<lparr>next_task_id := Suc ?tid, table := (table c)(?tid \<mapsto> length (futures c)),
                     futures := futures c @ [?f],
                     outbound := outbound c @
                       [\<lparr>msg_task_id = ?tid, msg_type = TaskMsg, msg_payload = p\<rparr>]\<rparr>) tid = Some k"
    then have "(tid = ?tid \<and> k = length (futures c)) \<or> (tid \<noteq> ?tid \<and> table c tid = Some k)"
      by (auto split: if_splits)
    then have "k < length (futures c @ [?f]) \<and> fut_task_id ((futures c @ [?f]) ! k) = tid
             \<and> \<not> resolved ((futures c @ [?f]) ! k)"
    proof
      assume "tid = ?tid \<and> k = length (futures c)"
      then show ?thesis by simp
    next
      assume "tid \<noteq> ?tid \<and> table c tid = Some k"
      then show ?thesis using tqc_inv_table [OF i, of tid k] by (simp add: nth_append)
    qed
    then show "k < length (futures (c\<lparr>next_task_id := Suc ?tid,
                     table := (table c)(?tid \<mapsto> length (futures c)),
                     futures := futures c @ [?f],
                     outbound := outbound c @
                       [\<lparr>msg_task_id = ?tid, msg_type = TaskMsg, msg_payload = p\<rparr>]\<rparr>))"
      and "fut_task_id (futures (c\<lparr>next_task_id := Suc ?tid,
                     table := (table c)(?tid \<mapsto> length (futures c)),
                     futures := futures c @ [?f],
                     outbound := outbound c @
                       [\<lparr>msg_task_id = ?tid, msg_type = TaskMsg, msg_payload = p\<rparr>]\<rparr>) ! k) = tid"
      and "\<not> resolved (futures (c\<lparr>next_task_id := Suc ?tid,
                     table := (table c)(?tid \<mapsto> length (futures c)),
                     futures := futures c @ [?f],
                     outbound := outbound c @
                       [\<lparr>msg_task_id = ?tid, msg_type = TaskMsg, msg_payload = p\<rparr>]\<rparr>) ! k)"
      by simp_all
  next
    fix f
    assume "f \<in> set (futures (c\<lparr>next_task_id := Suc ?tid,
                     table := (table c)(?tid \<mapsto> length (futures c)),
                     futures := futures c @ [?f],
                     outbound := outbound c @
                       [\<lparr>msg_task_id = ?tid, msg_type = TaskMsg, msg_payload = p\<rparr>]\<rparr>))"
    then show "fut_task_id f < next_task_id (c\<lparr>next_task_id := Suc ?tid,
                     table := (table c)(?tid \<mapsto> length (futures c)),
                     futures := futures c @ [?f],
                     outbound := outbound c @
                       [\<lparr>msg_task_id = ?tid, msg_type = TaskMsg, msg_payload = p\<rparr>]\<rparr>)"
      using i by (auto simp: tqc_inv_def less_Suc_eq)
  next
    show "distinct (map fut_task_id (futures (c\<lparr>next_task_id := Suc ?tid,
                     table := (table c)(?tid \<mapsto> length (futures c)),
                     futures := futures c @ [?f],
                     outbound := outbound c @
                       [\<lparr>msg_task_id = ?tid, msg_type = TaskMsg, msg_payload = p\<rparr>]\<rparr>)))"
      using i fresh by (simp add: tqc_inv_def)
  qed
qed

lemma tqc_inv_step: "tqc_inv c \<Longrightarrow> tqc_inv (client_step d x c)"
proof (cases x)
  case (Submit p)
  assume "tqc_inv c"
  then show ?thesis using Submit tqc_inv_submit [of c d p]
    by (auto split: sum.splits)
next
  case SendNext
  assume "tqc_inv c"
  then show ?thesis using SendNext
    by (auto simp: send_next_def tqc_inv_outbound split: list.splits)
qed (simp_all add: tqc_inv_route tqc_inv_cancel tqc_inv_connection_lost)

lemma tqc_inv_run: "tqc_inv c \<Longrightarrow> tqc_inv (client_run d xs c)"
  by (induction xs arbitrary: c) (simp_all add: tqc_inv_step)

lemma route_unknown:
  "table c (msg_task_id m) = None \<Longrightarrow> route_result m c = c\<lparr>dropped := dropped c @ [m]\<rparr>"
  by (simp add: route_result_def)

lemma resolved_not_in_table:
  assumes i: "tqc_inv c" and h: "h < length (futures c)" and r: "resolved (futures c ! h)"
  shows "table c (fut_task_id (futures c ! h)) = None"
proof (cases "table c (fut_task_id (futures c ! h))")
  case (Some k)
  from tqc_inv_table [OF i Some]
  have k: "k < length (futures c)" "fut_task_id (futures c ! k) = fut_task_id (futures c ! h)"
    "\<not> resolved (futures c ! k)" by simp_all
  have "distinct (map fut_task_id (futures c))" using i by (simp add: tqc_inv_def)
  with k(1,2) h have "k = h"
    by (metis length_map nth_eq_iff_index_eq nth_map)
  with k(3) r show ?thesis by simp
qed simp

lemma resolved_stable:
  assumes i: "tqc_inv c" and h: "h < length (futures c)" and r: "resolved (futures c ! h)"
  shows "h < length (futures (client_step d x c)) \<and> futures (client_step d x c) ! h = futures c ! h"
proof (cases x)
  case (Submit p)
  then show ?thesis using h
    by (auto simp: submit_def Let_def nth_append split: sum.splits if_splits)
next
  case SendNext
  then show ?thesis using h by (auto simp: send_next_def split: list.splits)
next
  case (Route m)
  show ?thesis
  proof (cases "table c (msg_task_id m)")
    case None
    then show ?thesis using Route h by (simp add: route_unknown)
  next
    case (Some k)
    from tqc_inv_table [OF i Some] r have "k \<noteq> h" by auto
    then show ?thesis using Route h Some
      by (cases "msg_type m") (simp_all add: route_result_def)
  qed
next
  case (CancelFuture k)
  have "k \<noteq> h" if "\<not> resolved (futures c ! k)" using that r by auto
  then show ?thesis using CancelFuture h by (auto simp: cancel_def)
next
  case TransportDown
  then show ?thesis using h r by (simp add: connection_lost_def)
qed

section \<open>Properties of the task distribution core\<close>

text \<open>
  Claim C5: in every reachable state of the Interchange no registered worker holds more tasks
  in flight than its capacity, after every step (task arrival, dispatch, result, watchdog
  requeue, closed connection, registration, heartbeat, cancellation) and after every handler,
  which runs the dispatch loop; with a positive batch size every handler returns.
\<close>

theorem in_flight_within_capacity:
  "(\<forall>w\<in>set (workers (exec cfg evs initial)).
       card (set (in_flight_tasks w)) \<le> capacity w
       \<and> length (in_flight_tasks w) \<le> capacity w)
   \<and> (\<forall>s'. handle cfg ev (exec cfg evs initial) = Some s' \<longrightarrow>
         (\<forall>w\<in>set (workers s'). card (set (in_flight_tasks w)) \<le> capacity w))
   \<and> (0 < batch_size cfg \<longrightarrow> handle cfg ev (exec cfg evs initial) \<noteq> None)"
proof (intro conjI allI impI ballI)
  have i: "interchange_inv (exec cfg evs initial)"
    by (rule inv_exec [OF inv_initial])
  fix w assume w: "w \<in> set (workers (exec cfg evs initial))"
  show l: "length (in_flight_tasks w) \<le> capacity w"
    by (rule inv_capacity [OF i w])
  show "card (set (in_flight_tasks w)) \<le> capacity w"
    using card_length [of "in_flight_tasks w"] l by (rule le_trans)
next
  have i: "interchange_inv (exec cfg evs initial)"
    by (rule inv_exec [OF inv_initial])
  fix s' w
  assume h: "handle cfg ev (exec cfg evs initial) = Some s'" and w: "w \<in> set (workers s')"
  have "length (in_flight_tasks w) \<le> capacity w"
    by (rule inv_capacity [OF inv_handle [OF i h] w])
  with card_length [of "in_flight_tasks w"]
  show "card (set (in_flight_tasks w)) \<le> capacity w" by (rule le_trans)
next
  assume "0 < batch_size cfg"
  from handle_returns [OF this, of ev "exec cfg evs initial"]
  show "handle cfg ev (exec cfg evs initial) \<noteq> None" by auto
qed

lemma burst_workers:
  "workers (exec cfg1 burst initial) =
     [\<lparr>worker_id = 7, capacity = 3, last_heartbeat_time = 0, in_flight_tasks = [0, 1, 2]\<rparr>,
      \<lparr>worker_id = 8, capacity = 1, last_heartbeat_time = 0, in_flight_tasks = [3]\<rparr>]"
  by code_simp

lemma burst_result:
  "map_option (\<lambda>s. map in_flight_tasks (workers s))
     (handle cfg1 (Result 3 ResultMsg ''r'') (exec cfg1 burst initial)) = Some [[0, 1, 2], [4]]"
  by code_simp

text \<open>
  Witness of C5: a burst of five tasks on workers of capacity 3 and 1 fills both workers and
  leaves one task pending; a result then frees a slot, which the dispatch loop fills.
\<close>

theorem in_flight_within_capacity_witness:
  "map in_flight_tasks (workers (exec cfg1 burst initial)) = [[0, 1, 2], [3]]
   \<and> map capacity (workers (exec cfg1 burst initial)) = [3, 1]
   \<and> list_all (\<lambda>w. card (set (in_flight_tasks w)) \<le> capacity w)
        (workers (exec cfg1 burst initial))
   \<and> 0 < batch_size cfg1
   \<and> map_option (\<lambda>s. map in_flight_tasks (workers s))
        (handle cfg1 (Result 3 ResultMsg ''r'') (exec cfg1 burst initial)) = Some [[0, 1, 2], [4]]
   \<and> list_all (\<lambda>w. card (set (in_flight_tasks w)) \<le> capacity w)
        (workers (the (handle cfg1 (Result 3 ResultMsg ''r'') (exec cfg1 burst initial))))"
proof -
  note t = in_flight_within_capacity [of cfg1 burst "Result 3 ResultMsg ''r''"]
  from t have a: "list_all (\<lambda>w. card (set (in_flight_tasks w)) \<le> capacity w)
        (workers (exec cfg1 burst initial))"
    by (simp add: list_all_iff)
  have b: "0 < batch_size cfg1" by (simp add: cfg1_def)
  with t obtain s' where s': "handle cfg1 (Result 3 ResultMsg ''r'') (exec cfg1 burst initial) = Some s'"
    by auto
  with t have c: "list_all (\<lambda>w. card (set (in_flight_tasks w)) \<le> capacity w) (workers s')"
    by (simp add: list_all_iff)
  show ?thesis
  proof (intro conjI)
    show "map in_flight_tasks (workers (exec cfg1 burst initial)) = [[0, 1, 2], [3]]"
      by (simp add: burst_workers)
    show "map capacity (workers (exec cfg1 burst initial)) = [3, 1]"
      by (simp add: burst_workers)
    show "list_all (\<lambda>w. card (set (in_flight_tasks w)) \<le> capacity w)
            (workers (exec cfg1 burst initial))"
      by (rule a)
    show "0 < batch_size cfg1" by (rule b)
    show "map_option (\<lambda>s. map in_flight_tasks (workers s))
            (handle cfg1 (Result 3 ResultMsg ''r'') (exec cfg1 burst initial))
          = Some [[0, 1, 2], [4]]"
      by (rule burst_result)
    show "list_all (\<lambda>w. card (set (in_flight_tasks w)) \<le> capacity w)
            (workers (the (handle cfg1 (Result 3 ResultMsg ''r'') (exec cfg1 burst initial))))"
      using c s' by simp
  qed
qed



lemma route_after_route:
  "futures (route_result m (route_result m c)) = futures (route_result m c)"
proof (cases "table c (msg_task_id m)")
  case None
  then show ?thesis by (simp add: route_result_def)
next
  case (Some h)
  then show ?thesis by (cases "msg_type m") (simp_all add: route_result_def)
qed

text \<open>
  Claim C6: in every reachable state of the client, a result message whose task id is not in
  the mapping table changes no Future and no mapping entry, and is logged as dropped; a message
  for the task of a resolved Future changes no Future; delivering a message a second time
  changes no Future.
\<close>

theorem duplicate_delivery_dropped:
  fixes d :: nat and ops :: "client_op list" and m :: message
  defines "c \<equiv> client_run d ops tqc_initial"
  shows "(table c (msg_task_id m) = None \<longrightarrow>
            futures (route_result m c) = futures c \<and> table (route_result m c) = table c
            \<and> dropped (route_result m c) = dropped c @ [m])
       \<and> (\<forall>h. h < length (futures c) \<and> resolved (futures c ! h)
               \<and> msg_task_id m = fut_task_id (futures c ! h) \<longrightarrow>
             futures (route_result m c) = futures c)
       \<and> futures (route_result m (route_result m c)) = futures (route_result m c)"
proof (intro conjI allI impI)
  have i: "tqc_inv c" unfolding c_def by (rule tqc_inv_run [OF tqc_inv_initial])
  {
    assume n: "table c (msg_task_id m) = None"
    from route_unknown [OF n]
    show "futures (route_result m c) = futures c" and "table (route_result m c) = table c"
      and "dropped (route_result m c) = dropped c @ [m]"
      by simp_all
  }
  {
    fix h
    assume h: "h < length (futures c) \<and> resolved (futures c ! h)
               \<and> msg_task_id m = fut_task_id (futures c ! h)"
    then have "table c (msg_task_id m) = None"
      using resolved_not_in_table [OF i, of h] by simp
    from route_unknown [OF this] show "futures (route_result m c) = futures c" by simp
  }
  show "futures (route_result m (route_result m c)) = futures (route_result m c)"
    by (rule route_after_route)
qed

text \<open>
  Witness of C6: after the result 42 of task 0 has been routed, a second result for task 0 is
  dropped and the Future keeps 42.
\<close>

theorem duplicate_delivery_dropped_witness:
  "table (client_run 4 session tqc_initial) 0 = None
   \<and> futures (client_run 4 session tqc_initial) =
        [\<lparr>fut_task_id = 0, slot = Some (Value ''42''), resolved = True\<rparr>]
   \<and> futures (route_result \<lparr>msg_task_id = 0, msg_type = ResultMsg, msg_payload = ''43''\<rparr>
        (client_run 4 session tqc_initial)) =
        [\<lparr>fut_task_id = 0, slot = Some (Value ''42''), resolved = True\<rparr>]
   \<and> dropped (route_result \<lparr>msg_task_id = 0, msg_type = ResultMsg, msg_payload = ''43''\<rparr>
        (client_run 4 session tqc_initial)) =
        [\<lparr>msg_task_id = 0, msg_type = ResultMsg, msg_payload = ''43''\<rparr>]"
proof -
  have t: "table (client_run 4 session tqc_initial) 0 = None" by code_simp
  have f: "futures (client_run 4 session tqc_initial) =
        [\<lparr>fut_task_id = 0, slot = Some (Value ''42''), resolved = True\<rparr>]" by code_simp
  have l: "dropped (client_run 4 session tqc_initial) = []" by code_simp
  from duplicate_delivery_dropped [of 4 session
         "\<lparr>msg_task_id = 0, msg_type = ResultMsg, msg_payload = ''43''\<rparr>"] t f l
  show ?thesis by simp
qed



end
